theory Spec2Isabelle
  imports Main
begin

section \<open>The deferred source map cache of the rewriter\<close>

text \<open>
  A shallow embedding of \<^verbatim>\<open>packages/rewriter/lib/deferred-source-map-cache.ts\<close>.
  The class \<^verbatim>\<open>DeferredSourceMapCache\<close> keeps an array of requests; \<^verbatim>\<open>defer\<close> appends
  one, \<^verbatim>\<open>resolve\<close> turns the JavaScript text of one into a source map and keeps the
  map, \<^verbatim>\<open>reset\<close> empties the array.
\<close>

subsection \<open>Values of type \<^verbatim>\<open>any\<close>\<close>

text \<open>
  The field \<^verbatim>\<open>sourceMap\<close>, the \<^verbatim>\<open>headers\<close> and what the collaborators hand back are typed
  \<^verbatim>\<open>any\<close>. The code never looks inside such a value; it only tests it in a condition
  (\<^verbatim>\<open>if (request.sourceMap)\<close>, \<^verbatim>\<open>if (!inputSourceMap)\<close>), which is JavaScript's
  truthiness: \<^verbatim>\<open>undefined\<close>, \<^verbatim>\<open>null\<close>, \<^verbatim>\<open>false\<close>, \<^verbatim>\<open>0\<close> and the empty string are
  falsy, every object is truthy. Numbers are kept integral here (\<^verbatim>\<open>NaN\<close>, falsy like
  \<^verbatim>\<open>0\<close>, is left out), and an object is the list of its properties.
\<close>

datatype any =
    JUndefined
  | JNull
  | JBoolean bool
  | JNumber int
  | JString string
  | JObject "(string \<times> any) list"

fun truthy :: "any \<Rightarrow> bool" where
  "truthy JUndefined = False"
| "truthy JNull = False"
| "truthy (JBoolean b) = b"
| "truthy (JNumber n) = (n \<noteq> 0)"
| "truthy (JString s) = (s \<noteq> [])"
| "truthy (JObject ps) = True"

subsection \<open>The data\<close>

text \<open>
  \<^verbatim>\<open>type DeferredSourceMapRequest = { uniqueId: string, url: string, js?: string, sourceMap?: any }\<close>.
  The optional \<^verbatim>\<open>js\<close> is an option, so that \<^verbatim>\<open>delete request.js\<close> is \<open>None\<close> and a present
  empty text is \<open>Some []\<close>. Reading an absent \<^verbatim>\<open>sourceMap\<close> gives \<^verbatim>\<open>undefined\<close>, and the code
  only reads and assigns it, so an absent \<^verbatim>\<open>sourceMap\<close> is \<open>JUndefined\<close>.
\<close>

record DeferredSourceMapRequest =
  uniqueId :: string
  url :: string
  js :: "string option"
  sourceMap :: any

text \<open>
  The fields of the class: \<^verbatim>\<open>_idCounter = 0\<close> and \<^verbatim>\<open>requests = []\<close>. The third field,
  \<^verbatim>\<open>requestLib\<close>, is a collaborator and is modelled with the other collaborators below.
\<close>

record DeferredSourceMapCache =
  idCounter :: nat
  requests :: "DeferredSourceMapRequest list"

text \<open>The object literal \<^verbatim>\<open>{ url: request.url, headers, timeout: 5000 }\<close> handed to \<^verbatim>\<open>requestLib\<close>.\<close>

record Req =
  req_url :: string
  req_headers :: any
  req_timeout :: nat

text \<open>
  The two errors the class throws itself, and the rejection of \<^verbatim>\<open>rewriteJsSourceMapAsync\<close>,
  which \<^verbatim>\<open>resolve\<close> awaits outside any \<^verbatim>\<open>try\<close>:
  \<^item> \<open>DuplicateIdentifier uid\<close> is \<^verbatim>\<open>new Error(`Deferred sourcemap key "${uid}" is not unique`)\<close>;
  \<^item> \<open>MissingSource\<close> is \<^verbatim>\<open>new Error('Missing JS for source map rewrite')\<close>;
  \<^item> \<open>RewriteRejected e\<close> is the rejection \<open>e\<close> of the rewriting collaborator.
\<close>

datatype error =
    DuplicateIdentifier string
  | MissingSource
  | RewriteRejected string

subsection \<open>The collaborators\<close>

text \<open>
  \<^verbatim>\<open>sourceMaps.getMappingUrl\<close>, \<^verbatim>\<open>sourceMaps.tryDecodeInlineUrl\<close>, \<^verbatim>\<open>rewriteJsSourceMapAsync\<close>
  and the \<^verbatim>\<open>requestLib\<close> given to the constructor are imported from other modules. They
  are parameters of the model: a record of functions giving what each one answers during
  one call of \<^verbatim>\<open>resolve\<close>. A promise that rejects is \<open>Inl\<close>, one that fulfils is \<open>Inr\<close>;
  for \<^verbatim>\<open>requestLib\<close>, \<open>Inr body\<close> is the \<^verbatim>\<open>body\<close> property of the response and \<open>Inl\<close> is
  anything that lands in the \<^verbatim>\<open>catch\<close> block. The network may answer differently from one
  call to the next, so the record is an argument of each call and not part of the state.
\<close>

record collaborators =
  getMappingUrl :: "string \<Rightarrow> string option"
  tryDecodeInlineUrl :: "string \<Rightarrow> any"
  requestLib :: "Req \<Rightarrow> bool \<Rightarrow> string + any"
  rewriteJsSourceMapAsync :: "string \<Rightarrow> string \<Rightarrow> any \<Rightarrow> string + any"

text \<open>What \<^verbatim>\<open>resolve\<close> asked of its collaborators, in the order of the calls.\<close>

datatype call =
    GetMappingUrl string
  | TryDecodeInlineUrl string
  | RequestLib Req bool
  | RewriteJsSourceMapAsync string string any

subsection \<open>The operations\<close>

text \<open>\<^verbatim>\<open>new DeferredSourceMapCache(requestLib)\<close>.\<close>

definition new_cache :: DeferredSourceMapCache where
  "new_cache = \<lparr>idCounter = 0, requests = []\<rparr>"

text \<open>\<^verbatim>\<open>reset () { this.requests = [] }\<close>\<close>

definition reset :: "DeferredSourceMapCache \<Rightarrow> DeferredSourceMapCache" where
  "reset c = c\<lparr>requests := []\<rparr>"

text \<open>\<^verbatim>\<open>_.find(this.requests, { uniqueId })\<close>: the first request with that \<^verbatim>\<open>uniqueId\<close>.\<close>

definition getRequestById ::
  "DeferredSourceMapCache \<Rightarrow> string \<Rightarrow> DeferredSourceMapRequest option" where
  "getRequestById c uid = find (\<lambda>r. uniqueId r = uid) (requests c)"

text \<open>\<^verbatim>\<open>_.remove(this.requests, { url })\<close>: every request with that \<^verbatim>\<open>url\<close> leaves the array.\<close>

definition removeRequestsByUrl ::
  "DeferredSourceMapCache \<Rightarrow> string \<Rightarrow> DeferredSourceMapCache" where
  "removeRequestsByUrl c u = c\<lparr>requests := filter (\<lambda>r. url r \<noteq> u) (requests c)\<rparr>"

text \<open>
  \<^verbatim>\<open>defer\<close> throws when the identifier is held, and otherwise removes the requests of the
  same URL, pushes the new one and returns its identifier. The result is paired with the
  cache afterwards; a throw leaves the cache as it was.
\<close>

definition "defer" ::
  "DeferredSourceMapCache \<Rightarrow> DeferredSourceMapRequest \<Rightarrow> (error + string) \<times> DeferredSourceMapCache" where
  "defer c request =
     (case getRequestById c (uniqueId request) of
        Some found \<Rightarrow> (Inl (DuplicateIdentifier (uniqueId request)), c)
      | None \<Rightarrow>
          (let c1 = removeRequestsByUrl c (url request);
               c2 = c1\<lparr>requests := requests c1 @ [request]\<rparr>
           in (Inr (uniqueId request), c2)))"

text \<open>
  \<^verbatim>\<open>resolve\<close> assigns to the object that \<^verbatim>\<open>_getRequestById\<close> returned, which is the object
  held in the array: the first request with the identifier is replaced by its changed
  copy.
\<close>

fun assignRequest ::
  "string \<Rightarrow> (DeferredSourceMapRequest \<Rightarrow> DeferredSourceMapRequest) \<Rightarrow>
   DeferredSourceMapRequest list \<Rightarrow> DeferredSourceMapRequest list" where
  "assignRequest uid f [] = []"
| "assignRequest uid f (r # rs) =
     (if uniqueId r = uid then f r # rs else r # assignRequest uid f rs)"

text \<open>
  Lines 75 to 100 of \<^verbatim>\<open>resolve\<close>, from \<^verbatim>\<open>getMappingUrl\<close> to the end of the block that
  fills the local \<^verbatim>\<open>inputSourceMap\<close>: the value of that local (declared without a value,
  so \<^verbatim>\<open>undefined\<close> until assigned) and the calls made. \<^verbatim>\<open>if (sourceMapUrl)\<close> is a
  truthiness test on a string: the empty string fails it as \<^verbatim>\<open>undefined\<close> does. When
  \<^verbatim>\<open>requestLib\<close> fails, the \<^verbatim>\<open>catch\<close> block only logs, and the local keeps what
  \<^verbatim>\<open>tryDecodeInlineUrl\<close> gave, a falsy value.
\<close>

definition loadInputSourceMap ::
  "collaborators \<Rightarrow> DeferredSourceMapRequest \<Rightarrow> string \<Rightarrow> any \<Rightarrow> any \<times> call list" where
  "loadInputSourceMap env request src headers =
     (case getMappingUrl env src of
        None \<Rightarrow> (JUndefined, [GetMappingUrl src])
      | Some sourceMapUrl \<Rightarrow>
          if sourceMapUrl = [] then (JUndefined, [GetMappingUrl src])
          else
            (let decoded = tryDecodeInlineUrl env sourceMapUrl in
             if truthy decoded
             then (decoded, [GetMappingUrl src, TryDecodeInlineUrl sourceMapUrl])
             else
               (let req = \<lparr>req_url = url request, req_headers = headers, req_timeout = 5000\<rparr>
                in (case requestLib env req True of
                      Inr body \<Rightarrow>
                        (body, [GetMappingUrl src, TryDecodeInlineUrl sourceMapUrl,
                                RequestLib req True])
                    | Inl err \<Rightarrow>
                        (decoded, [GetMappingUrl src, TryDecodeInlineUrl sourceMapUrl,
                                   RequestLib req True])))))"

text \<open>
  \<^verbatim>\<open>async resolve (uniqueId, headers)\<close>, run from its call to its settlement. The result is
  the value the promise fulfils with (\<open>JUndefined\<close> for the bare \<^verbatim>\<open>return\<close>) or the error it
  rejects with, then the cache afterwards, then the calls made to the collaborators.
  No other call on the cache runs between its suspensions here; calls that overlap are
  followed below, under the calls of \<^verbatim>\<open>resolve\<close> in flight.
  The condition \<^verbatim>\<open>!request.js\<close> holds of an absent \<^verbatim>\<open>js\<close> and of the empty string. When
  \<^verbatim>\<open>rewriteJsSourceMapAsync\<close> rejects, the assignment and the \<^verbatim>\<open>delete\<close> are not reached.
\<close>

definition resolve ::
  "collaborators \<Rightarrow> DeferredSourceMapCache \<Rightarrow> string \<Rightarrow> any \<Rightarrow>
   (error + any) \<times> DeferredSourceMapCache \<times> call list" where
  "resolve env c uid headers =
     (case getRequestById c uid of
        None \<Rightarrow> (Inr JUndefined, c, [])
      | Some request \<Rightarrow>
          if truthy (sourceMap request) then (Inr (sourceMap request), c, [])
          else (case js request of
            None \<Rightarrow> (Inl MissingSource, c, [])
          | Some src \<Rightarrow>
              if src = [] then (Inl MissingSource, c, [])
              else
                (let (inputSourceMap, calls) = loadInputSourceMap env request src headers;
                     calls' = calls @ [RewriteJsSourceMapAsync (url request) src inputSourceMap]
                 in (case rewriteJsSourceMapAsync env (url request) src inputSourceMap of
                       Inl err \<Rightarrow> (Inl (RewriteRejected err), c, calls')
                     | Inr m \<Rightarrow>
                         (Inr m,
                          c\<lparr>requests :=
                              assignRequest uid (\<lambda>r. r\<lparr>sourceMap := m, js := None\<rparr>) (requests c)\<rparr>,
                          calls')))))"

subsection \<open>Sequences of operations\<close>

text \<open>
  An operation on the cache, with what the collaborators answer while it runs, and the
  cache after a list of operations carried out one after the other from a given cache.
  A \<^verbatim>\<open>defer\<close> that throws leaves the cache as it is and the sequence goes on.
\<close>

datatype operation =
    Defer DeferredSourceMapRequest
  | Resolve collaborators string any
  | Reset

fun step :: "DeferredSourceMapCache \<Rightarrow> operation \<Rightarrow> DeferredSourceMapCache" where
  "step c (Defer request) = snd (defer c request)"
| "step c (Resolve env uid headers) = fst (snd (resolve env c uid headers))"
| "step c Reset = reset c"

definition run :: "DeferredSourceMapCache \<Rightarrow> operation list \<Rightarrow> DeferredSourceMapCache" where
  "run c ops = foldl step c ops"

subsection \<open>Calls of resolve in flight\<close>

text \<open>
  \<^verbatim>\<open>resolve\<close> is an \<^verbatim>\<open>async\<close> function: it runs up to an \<^verbatim>\<open>await\<close> and goes on when the
  awaited promise settles, and between the two other code runs, among it other calls on
  the same cache. The rest of this section follows the class with that in view. A request
  is an object, known by a reference (its index in \<open>objects\<close>); the array
  \<^verbatim>\<open>this.requests\<close> is the list \<open>held\<close> of the references it holds; each call of \<^verbatim>\<open>resolve\<close>
  made so far is a task, known by its index in \<open>tasks\<close>. \<^verbatim>\<open>_idCounter\<close>, never read or
  written, is left out. Each call of \<^verbatim>\<open>defer\<close> is taken to be handed a new object, and
  callers do not change an object after handing it over.

  A task is where its call stands:
  \<^item> \<open>AwaitRequestLib p req decoded\<close>: suspended at line 92 on \<^verbatim>\<open>requestLib(req, true)\<close>, with
    the local \<^verbatim>\<open>request\<close> bound to object \<open>p\<close> and \<^verbatim>\<open>inputSourceMap\<close> holding \<open>decoded\<close>;
  \<^item> \<open>AwaitRewrite p u j inp\<close>: suspended at line 103 on
    \<^verbatim>\<open>rewriteJsSourceMapAsync(request.url, request.js, inputSourceMap)\<close>, called with the
    values \<open>u\<close>, \<open>j\<close>, \<open>inp\<close> read when line 103 was reached;
  \<^item> \<open>Settled outcome\<close>: the promise of the call has settled.
\<close>

datatype task =
    AwaitRequestLib nat Req any
  | AwaitRewrite nat string "string option" any
  | Settled "error + any"


record Runtime =
  objects :: "DeferredSourceMapRequest list"
  held :: "nat list"
  tasks :: "task list"

text \<open>
  What happens, one thing at a time: a call of one of the three methods, which runs up
  to its return or its first \<^verbatim>\<open>await\<close>, or the settlement of the promise a task waits for,
  with the outcome the collaborator gives (\<open>Inl\<close> a rejection, \<open>Inr\<close> the \<^verbatim>\<open>body\<close> of the
  response or the map).
\<close>

datatype event =
    CallDefer DeferredSourceMapRequest
  | CallReset
  | CallResolve collaborators string any
  | RequestLibSettles nat "string + any"
  | RewriteSettles nat "string + any"

definition start :: Runtime where
  "start = \<lparr>objects = [], held = [], tasks = []\<rparr>"

text \<open>\<^verbatim>\<open>_getRequestById\<close>, giving the reference of the first held request with the identifier.\<close>

definition lookupById :: "Runtime \<Rightarrow> string \<Rightarrow> nat option" where
  "lookupById s uid = find (\<lambda>p. uniqueId (objects s ! p) = uid) (held s)"

text \<open>\<^verbatim>\<open>defer\<close>: a throw changes nothing; otherwise the held requests of the URL are removed and the new object is pushed.\<close>

definition call_defer :: "Runtime \<Rightarrow> DeferredSourceMapRequest \<Rightarrow> Runtime" where
  "call_defer s request =
     (case lookupById s (uniqueId request) of
        Some p \<Rightarrow> s
      | None \<Rightarrow>
          s\<lparr>objects := objects s @ [request],
            held := filter (\<lambda>p. url (objects s ! p) \<noteq> url request) (held s) @ [length (objects s)]\<rparr>)"

text \<open>
  \<^verbatim>\<open>resolve\<close> from its call to its first suspension: lines 61 to 73 settle the call at once,
  and otherwise the call waits for \<^verbatim>\<open>requestLib\<close> (line 92) or, when no map is to be fetched,
  for the rewriter (line 103).
\<close>

definition call_resolve :: "collaborators \<Rightarrow> Runtime \<Rightarrow> string \<Rightarrow> any \<Rightarrow> task" where
  "call_resolve env s uid headers =
     (case lookupById s uid of
        None \<Rightarrow> Settled (Inr JUndefined)
      | Some p \<Rightarrow>
          (let request = objects s ! p in
           if truthy (sourceMap request) then Settled (Inr (sourceMap request))
           else (case js request of
             None \<Rightarrow> Settled (Inl MissingSource)
           | Some src \<Rightarrow>
               if src = [] then Settled (Inl MissingSource)
               else (case getMappingUrl env src of
                 None \<Rightarrow> AwaitRewrite p (url request) (Some src) JUndefined
               | Some sourceMapUrl \<Rightarrow>
                   if sourceMapUrl = [] then AwaitRewrite p (url request) (Some src) JUndefined
                   else
                     (let decoded = tryDecodeInlineUrl env sourceMapUrl in
                      if truthy decoded then AwaitRewrite p (url request) (Some src) decoded
                      else AwaitRequestLib p
                             \<lparr>req_url = url request, req_headers = headers, req_timeout = 5000\<rparr>
                             decoded)))))"

text \<open>
  One event. When \<^verbatim>\<open>requestLib\<close> settles, lines 94 to 103 run: \<^verbatim>\<open>inputSourceMap\<close> takes the
  body, or keeps its value when the \<^verbatim>\<open>catch\<close> block ran, and the rewriter is called with
  \<^verbatim>\<open>request.url\<close> and \<^verbatim>\<open>request.js\<close> as they are then. When the rewriter fulfils, lines 103
  to 106 run: the object is assigned the map and loses \<^verbatim>\<open>js\<close>, with no new test of
  \<^verbatim>\<open>request.sourceMap\<close>, whether or not the array still holds the object. An event for a
  task that is not waiting for it does not happen and changes nothing.
\<close>

fun occur :: "Runtime \<Rightarrow> event \<Rightarrow> Runtime" where
  "occur s (CallDefer request) = call_defer s request"
| "occur s CallReset = s\<lparr>held := []\<rparr>"
| "occur s (CallResolve env uid headers) = s\<lparr>tasks := tasks s @ [call_resolve env s uid headers]\<rparr>"
| "occur s (RequestLibSettles t outcome) =
     (if t < length (tasks s) then
        (case tasks s ! t of
           AwaitRequestLib p req decoded \<Rightarrow>
             (let inputSourceMap = (case outcome of Inr body \<Rightarrow> body | Inl err \<Rightarrow> decoded)
              in s\<lparr>tasks := (tasks s)
                     [t := AwaitRewrite p (url (objects s ! p)) (js (objects s ! p)) inputSourceMap]\<rparr>)
         | AwaitRewrite p u j inp \<Rightarrow> s
         | Settled res \<Rightarrow> s)
      else s)"
| "occur s (RewriteSettles t outcome) =
     (if t < length (tasks s) then
        (case tasks s ! t of
           AwaitRewrite p u j inp \<Rightarrow>
             (case outcome of
                Inl err \<Rightarrow> s\<lparr>tasks := (tasks s)[t := Settled (Inl (RewriteRejected err))]\<rparr>
              | Inr m \<Rightarrow>
                  s\<lparr>objects := (objects s)[p := (objects s ! p)\<lparr>sourceMap := m, js := None\<rparr>],
                    tasks := (tasks s)[t := Settled (Inr m)]\<rparr>)
         | AwaitRequestLib p req decoded \<Rightarrow> s
         | Settled res \<Rightarrow> s)
      else s)"


text \<open>
  The link with the operations above. \<open>view\<close> is the array as the list of the requests
  it holds. \<open>resolve_in_turn\<close> is a call of \<^verbatim>\<open>resolve\<close> whose promises settle, as the
  collaborators \<open>env\<close> say, before anything else happens, and \<open>perform\<close> carries an
  operation out in that way.
\<close>

definition view :: "Runtime \<Rightarrow> DeferredSourceMapRequest list" where
  "view s = map (\<lambda>p. objects s ! p) (held s)"

definition wellformed :: "Runtime \<Rightarrow> bool" where
  "wellformed s \<longleftrightarrow> distinct (held s) \<and> (\<forall>p \<in> set (held s). p < length (objects s))"

definition settle_in_turn :: "collaborators \<Rightarrow> Runtime \<Rightarrow> nat \<Rightarrow> Runtime" where
  "settle_in_turn env s t =
     (let s1 = (case tasks s ! t of
                  AwaitRequestLib p req decoded \<Rightarrow>
                    occur s (RequestLibSettles t (requestLib env req True))
                | AwaitRewrite p u j inp \<Rightarrow> s
                | Settled res \<Rightarrow> s)
      in (case tasks s1 ! t of
            AwaitRewrite p u j inp \<Rightarrow>
              (case j of
                 Some src \<Rightarrow> occur s1 (RewriteSettles t (rewriteJsSourceMapAsync env u src inp))
               | None \<Rightarrow> s1)
          | AwaitRequestLib p req decoded \<Rightarrow> s1
          | Settled res \<Rightarrow> s1))"

definition resolve_in_turn :: "collaborators \<Rightarrow> Runtime \<Rightarrow> string \<Rightarrow> any \<Rightarrow> Runtime" where
  "resolve_in_turn env s uid headers =
     settle_in_turn env (occur s (CallResolve env uid headers)) (length (tasks s))"

fun perform :: "Runtime \<Rightarrow> operation \<Rightarrow> Runtime" where
  "perform s (Defer request) = occur s (CallDefer request)"
| "perform s (Resolve env uid headers) = resolve_in_turn env s uid headers"
| "perform s Reset = occur s CallReset"

subsection \<open>Concrete collaborators and requests\<close>

text \<open>
  Collaborators for the examples: a text ending in a \<^verbatim>\<open>data:\<close> reference decodes
  inline, one ending in \<^verbatim>\<open>app.js.map\<close> does not, the network times out, and the rewriter
  builds a map that records the URL and the input map it was given. The second set of
  collaborators differs in the rewriter, which rejects.
\<close>

definition inline_js :: string where
  "inline_js = ''f()//# sourceMappingURL=data:application/json;base64,e30=''"

definition linked_js :: string where
  "linked_js = ''g()//# sourceMappingURL=app.js.map''"

definition user_map :: any where
  "user_map = JObject [(''version'', JNumber 3)]"

definition composed :: "string \<Rightarrow> any \<Rightarrow> any" where
  "composed u inp = JObject [(''file'', JString u), (''input'', inp)]"

definition sample_env :: collaborators where
  "sample_env =
     \<lparr>getMappingUrl = (\<lambda>src.
          if src = inline_js then Some ''data:application/json;base64,e30=''
          else if src = linked_js then Some ''app.js.map''
          else None),
      tryDecodeInlineUrl = (\<lambda>ref.
          if ref = ''data:application/json;base64,e30='' then user_map else JUndefined),
      requestLib = (\<lambda>req retry. Inl ''ETIMEDOUT''),
      rewriteJsSourceMapAsync = (\<lambda>u src inp. Inr (composed u inp))\<rparr>"

definition failing_env :: collaborators where
  "failing_env = sample_env\<lparr>rewriteJsSourceMapAsync := (\<lambda>u src inp. Inl ''worker died'')\<rparr>"

definition request_a :: DeferredSourceMapRequest where
  "request_a = \<lparr>uniqueId = ''a'', url = ''http://x/app.js'', js = Some inline_js,
                sourceMap = JUndefined\<rparr>"

definition request_b :: DeferredSourceMapRequest where
  "request_b = \<lparr>uniqueId = ''b'', url = ''http://x/lib.js'', js = Some linked_js,
                sourceMap = JUndefined\<rparr>"

definition request_c :: DeferredSourceMapRequest where
  "request_c = \<lparr>uniqueId = ''c'', url = ''http://x/app.js'', js = Some linked_js,
                sourceMap = JUndefined\<rparr>"

definition request_d :: DeferredSourceMapRequest where
  "request_d = \<lparr>uniqueId = ''d'', url = ''http://x/app.js'', js = None,
                sourceMap = user_map\<rparr>"

definition request_empty :: DeferredSourceMapRequest where
  "request_empty = \<lparr>uniqueId = ''e'', url = ''http://x/empty.js'', js = Some [],
                    sourceMap = JUndefined\<rparr>"

definition request_bare :: DeferredSourceMapRequest where
  "request_bare = \<lparr>uniqueId = ''n'', url = ''http://x/none.js'', js = None,
                   sourceMap = JUndefined\<rparr>"


section \<open>Properties\<close>

lemma getRequestById_None_iff:
  "getRequestById c uid = None \<longleftrightarrow> uid \<notin> uniqueId ` set (requests c)"
  by (auto simp: getRequestById_def find_None_iff)

subsection \<open>Looking a request up\<close>

lemma getRequestById_SomeD:
  "getRequestById c uid = Some r \<Longrightarrow> r \<in> set (requests c) \<and> uniqueId r = uid"
  by (auto simp: getRequestById_def find_Some_iff)

lemma getRequestById_Some_iff_held:
  "(\<exists>r. getRequestById c uid = Some r) \<longleftrightarrow> uid \<in> uniqueId ` set (requests c)"
  using getRequestById_None_iff [of c uid] by (cases "getRequestById c uid") auto

lemma find_append_cases:
  "find P (xs @ ys) = (case find P xs of None \<Rightarrow> find P ys | Some x \<Rightarrow> Some x)"
  by (induction xs) auto

lemma find_assignRequest_same:
  "find (\<lambda>r. uniqueId r = uid) rs = Some r \<Longrightarrow> uniqueId (f r) = uid \<Longrightarrow>
   find (\<lambda>r. uniqueId r = uid) (assignRequest uid f rs) = Some (f r)"
  by (induction rs) (auto split: if_splits)

lemma find_assignRequest_other:
  "u \<noteq> uid \<Longrightarrow> (\<And>r. uniqueId (f r) = uniqueId r) \<Longrightarrow>
   find (\<lambda>r. uniqueId r = uid) (assignRequest u f rs) = find (\<lambda>r. uniqueId r = uid) rs"
  by (induction rs) auto

lemma map_uniqueId_assignRequest:
  "(\<And>r. uniqueId (f r) = uniqueId r) \<Longrightarrow> map uniqueId (assignRequest uid f rs) = map uniqueId rs"
  by (induction rs) auto

lemma map_url_assignRequest:
  "(\<And>r. url (f r) = url r) \<Longrightarrow> map url (assignRequest uid f rs) = map url rs"
  by (induction rs) auto

subsection \<open>The branches of resolve\<close>

lemma resolve_not_found:
  "getRequestById c uid = None \<Longrightarrow> resolve env c uid headers = (Inr JUndefined, c, [])"
  by (simp add: resolve_def)

lemma resolve_has_map:
  "getRequestById c uid = Some r \<Longrightarrow> truthy (sourceMap r) \<Longrightarrow>
   resolve env c uid headers = (Inr (sourceMap r), c, [])"
  by (simp add: resolve_def)

lemma resolve_no_js:
  "getRequestById c uid = Some r \<Longrightarrow> \<not> truthy (sourceMap r) \<Longrightarrow> js r = None \<or> js r = Some [] \<Longrightarrow>
   resolve env c uid headers = (Inl MissingSource, c, [])"
  by (auto simp: resolve_def)

lemma resolve_pending:
  "getRequestById c uid = Some r \<Longrightarrow> \<not> truthy (sourceMap r) \<Longrightarrow> js r = Some src \<Longrightarrow> src \<noteq> [] \<Longrightarrow>
   resolve env c uid headers =
     (case rewriteJsSourceMapAsync env (url r) src (fst (loadInputSourceMap env r src headers)) of
        Inl err \<Rightarrow>
          (Inl (RewriteRejected err), c,
           snd (loadInputSourceMap env r src headers) @
           [RewriteJsSourceMapAsync (url r) src (fst (loadInputSourceMap env r src headers))])
      | Inr m \<Rightarrow>
          (Inr m,
           c\<lparr>requests := assignRequest uid (\<lambda>r. r\<lparr>sourceMap := m, js := None\<rparr>) (requests c)\<rparr>,
           snd (loadInputSourceMap env r src headers) @
           [RewriteJsSourceMapAsync (url r) src (fst (loadInputSourceMap env r src headers))]))"
  by (simp add: resolve_def Let_def split_beta)

lemma resolve_cases:
  obtains
    (absent) "getRequestById c uid = None" "resolve env c uid headers = (Inr JUndefined, c, [])"
  | (cached) r where "getRequestById c uid = Some r" "truthy (sourceMap r)"
      "resolve env c uid headers = (Inr (sourceMap r), c, [])"
  | (missing) r where "getRequestById c uid = Some r" "\<not> truthy (sourceMap r)"
      "js r = None \<or> js r = Some []" "resolve env c uid headers = (Inl MissingSource, c, [])"
  | (rejected) r src err where "getRequestById c uid = Some r" "\<not> truthy (sourceMap r)"
      "js r = Some src" "src \<noteq> []"
      "rewriteJsSourceMapAsync env (url r) src (fst (loadInputSourceMap env r src headers)) = Inl err"
      "resolve env c uid headers =
         (Inl (RewriteRejected err), c,
          snd (loadInputSourceMap env r src headers) @
          [RewriteJsSourceMapAsync (url r) src (fst (loadInputSourceMap env r src headers))])"
  | (composed) r src m where "getRequestById c uid = Some r" "\<not> truthy (sourceMap r)"
      "js r = Some src" "src \<noteq> []"
      "rewriteJsSourceMapAsync env (url r) src (fst (loadInputSourceMap env r src headers)) = Inr m"
      "resolve env c uid headers =
         (Inr m,
          c\<lparr>requests := assignRequest uid (\<lambda>r. r\<lparr>sourceMap := m, js := None\<rparr>) (requests c)\<rparr>,
          snd (loadInputSourceMap env r src headers) @
          [RewriteJsSourceMapAsync (url r) src (fst (loadInputSourceMap env r src headers))])"
proof (cases "getRequestById c uid")
  case None
  then show ?thesis using absent resolve_not_found by blast
next
  case (Some r)
  show ?thesis
  proof (cases "truthy (sourceMap r)")
    case True
    then show ?thesis using Some cached resolve_has_map by blast
  next
    case False
    show ?thesis
    proof (cases "js r = None \<or> js r = Some []")
      case True
      then show ?thesis using Some False missing resolve_no_js by blast
    next
      case nojs: False
      then obtain src where src: "js r = Some src" "src \<noteq> []" by auto
      note p = resolve_pending [OF Some False src, of env headers]
      show ?thesis
      proof (cases "rewriteJsSourceMapAsync env (url r) src (fst (loadInputSourceMap env r src headers))")
        case (Inl err)
        then show ?thesis using p rejected [OF Some False src] by simp
      next
        case (Inr m)
        then show ?thesis using p composed [OF Some False src] by simp
      qed
    qed
  qed
qed

lemma resolve_keeps_ids:
  "map uniqueId (requests (fst (snd (resolve env c uid headers)))) = map uniqueId (requests c)"
  by (cases rule: resolve_cases [of c uid env headers]) (simp_all add: map_uniqueId_assignRequest)

lemma resolve_keeps_urls:
  "map url (requests (fst (snd (resolve env c uid headers)))) = map url (requests c)"
  by (cases rule: resolve_cases [of c uid env headers]) (simp_all add: map_url_assignRequest)

subsection \<open>defer\<close>

lemma defer_held:
  "getRequestById c (uniqueId request) = Some found \<Longrightarrow>
   defer c request = (Inl (DuplicateIdentifier (uniqueId request)), c)"
  by (simp add: defer_def)

lemma defer_free:
  "getRequestById c (uniqueId request) = None \<Longrightarrow>
   defer c request =
     (Inr (uniqueId request),
      c\<lparr>requests := filter (\<lambda>r. url r \<noteq> url request) (requests c) @ [request]\<rparr>)"
  by (simp add: defer_def removeRequestsByUrl_def Let_def)

lemma defer_success_iff:
  "fst (defer c request) = Inr uid \<longleftrightarrow> getRequestById c (uniqueId request) = None \<and> uid = uniqueId request"
  by (cases "getRequestById c (uniqueId request)") (auto simp: defer_held defer_free)



lemma defer_found:
  assumes "getRequestById c (uniqueId request) = None"
  shows "getRequestById (snd (defer c request)) (uniqueId request) = Some request"
proof -
  have "uniqueId request \<notin> uniqueId ` set (requests c)"
    using assms by (simp add: getRequestById_None_iff)
  then have "find (\<lambda>r. uniqueId r = uniqueId request)
      (filter (\<lambda>r. url r \<noteq> url request) (requests c)) = None"
    unfolding find_None_iff by (metis filter_is_subset image_eqI subsetD)
  then show ?thesis
    using assms by (simp add: defer_free getRequestById_def find_append_cases)
qed

lemma superseded_not_found:
  assumes "fst (defer c a) = Inr ida \<and> fst (defer (snd (defer c a)) b) = Inr idb \<and> url a = url b"
  shows "getRequestById (snd (defer (snd (defer c a)) b)) (uniqueId a) = None"
proof -
  let ?c1 = "snd (defer c a)"
  from assms have a: "getRequestById c (uniqueId a) = None"
    and b: "getRequestById ?c1 (uniqueId b) = None" and u: "url a = url b"
    by (simp_all add: defer_success_iff)
  have c1: "requests ?c1 = filter (\<lambda>r. url r \<noteq> url a) (requests c) @ [a]"
    using a by (simp add: defer_free)
  have ne: "uniqueId a \<noteq> uniqueId b"
    using b c1 by (auto simp: getRequestById_None_iff)
  have "requests (snd (defer ?c1 b)) = filter (\<lambda>r. url r \<noteq> url b) (requests ?c1) @ [b]"
    using b by (simp add: defer_free)
  then have "requests (snd (defer ?c1 b)) = filter (\<lambda>r. url r \<noteq> url b) (requests c) @ [b]"
    using c1 u by simp
  moreover have "uniqueId a \<notin> uniqueId ` set (requests c)"
    using a by (simp add: getRequestById_None_iff)
  ultimately show ?thesis
    using ne by (auto simp: getRequestById_None_iff)
qed

lemma superseded_found:
  assumes "fst (defer c a) = Inr ida \<and> fst (defer (snd (defer c a)) b) = Inr idb"
  shows "getRequestById (snd (defer (snd (defer c a)) b)) (uniqueId b) = Some b"
proof -
  let ?c1 = "snd (defer c a)"
  from assms have b: "getRequestById ?c1 (uniqueId b) = None"
    by (simp add: defer_success_iff)
  have r: "requests (snd (defer ?c1 b)) = filter (\<lambda>r. url r \<noteq> url b) (requests ?c1) @ [b]"
    using b by (simp add: defer_free)
  have "uniqueId b \<notin> uniqueId ` set (requests ?c1)"
    using b by (simp add: getRequestById_None_iff)
  then have "find (\<lambda>r. uniqueId r = uniqueId b) (filter (\<lambda>r. url r \<noteq> url b) (requests ?c1)) = None"
    unfolding find_None_iff by (metis filter_is_subset image_eqI subsetD)
  then show ?thesis
    unfolding getRequestById_def r by (simp add: find_append_cases)
qed

subsection \<open>Sequences of operations keep the identifiers and the URLs apart\<close>

lemma run_Nil: "run c [] = c"
  by (simp add: run_def)

lemma run_Cons: "run c (x # xs) = run (step c x) xs"
  by (simp add: run_def)

lemma map_assignRequest:
  "(\<And>r. g (f r) = g r) \<Longrightarrow> map g (assignRequest uid f rs) = map g rs"
  by (induction rs) auto

lemma resolve_keeps_id_url:
  "map (\<lambda>r. (uniqueId r, url r)) (requests (fst (snd (resolve env c uid headers)))) =
   map (\<lambda>r. (uniqueId r, url r)) (requests c)"
  by (cases rule: resolve_cases [of c uid env headers]) (simp_all add: map_assignRequest)

lemma defer_keeps_distinct:
  assumes "distinct (map uniqueId (requests c))" and "distinct (map url (requests c))"
  shows "distinct (map uniqueId (requests (snd (defer c request))))
       \<and> distinct (map url (requests (snd (defer c request))))"
proof (cases "getRequestById c (uniqueId request)")
  case None
  then have free: "uniqueId request \<notin> uniqueId ` set (requests c)"
    by (simp add: getRequestById_None_iff)
  have "uniqueId request \<notin> uniqueId ` set (filter (\<lambda>r. url r \<noteq> url request) (requests c))"
    using free by auto
  moreover have "url request \<notin> url ` set (filter (\<lambda>r. url r \<noteq> url request) (requests c))"
    by auto
  ultimately show ?thesis
    using assms None by (simp add: defer_free distinct_map_filter)
next
  case (Some found)
  then show ?thesis using assms by (simp add: defer_held)
qed

lemma step_keeps_distinct:
  assumes "distinct (map uniqueId (requests c))" and "distinct (map url (requests c))"
  shows "distinct (map uniqueId (requests (step c op))) \<and> distinct (map url (requests (step c op)))"
proof (cases op)
  case (Defer request)
  then show ?thesis using defer_keeps_distinct [OF assms] by simp
next
  case (Resolve env uid headers)
  then show ?thesis using assms by (simp add: resolve_keeps_ids resolve_keeps_urls)
next
  case Reset
  then show ?thesis by (simp add: reset_def)
qed

lemma run_keeps_distinct:
  "distinct (map uniqueId (requests c)) \<Longrightarrow> distinct (map url (requests c)) \<Longrightarrow>
   distinct (map uniqueId (requests (run c ops))) \<and> distinct (map url (requests (run c ops)))"
proof (induction ops arbitrary: c)
  case Nil
  then show ?case by (simp add: run_Nil)
next
  case (Cons op ops)
  then show ?case using step_keeps_distinct [of c op] by (simp add: run_Cons)
qed

subsection \<open>An identifier stays held while its request stays\<close>

lemma step_keeps_held:
  assumes "(uid, u) \<in> set (map (\<lambda>r. (uniqueId r, url r)) (requests c))"
    and "op \<noteq> Reset" and "\<forall>x. op = Defer x \<longrightarrow> url x \<noteq> u"
  shows "(uid, u) \<in> set (map (\<lambda>r. (uniqueId r, url r)) (requests (step c op)))"
proof (cases op)
  case (Defer x)
  show ?thesis
  proof (cases "getRequestById c (uniqueId x)")
    case None
    then show ?thesis using assms Defer by (auto simp: defer_free)
  next
    case (Some found)
    then show ?thesis using assms Defer by (simp add: defer_held)
  qed
next
  case (Resolve env uid' headers)
  then show ?thesis using assms(1) by (simp add: resolve_keeps_id_url)
next
  case Reset
  then show ?thesis using assms by simp
qed

lemma run_keeps_held:
  "(uid, u) \<in> set (map (\<lambda>r. (uniqueId r, url r)) (requests c)) \<Longrightarrow>
   \<forall>op \<in> set ops. op \<noteq> Reset \<and> (\<forall>x. op = Defer x \<longrightarrow> url x \<noteq> u) \<Longrightarrow>
   (uid, u) \<in> set (map (\<lambda>r. (uniqueId r, url r)) (requests (run c ops)))"
proof (induction ops arbitrary: c)
  case Nil
  then show ?case by (simp add: run_Nil)
next
  case (Cons op ops)
  have "(uid, u) \<in> set (map (\<lambda>r. (uniqueId r, url r)) (requests (step c op)))"
    using Cons.prems by (intro step_keeps_held) auto
  then show ?case using Cons by (simp add: run_Cons)
qed

lemma defer_fails_iff:
  "defer c x = (Inl (DuplicateIdentifier (uniqueId x)), c) \<longleftrightarrow> uniqueId x \<in> uniqueId ` set (requests c)"
proof (cases "getRequestById c (uniqueId x)")
  case None
  then show ?thesis using getRequestById_None_iff [of c "uniqueId x"] by (simp add: defer_free)
next
  case (Some found)
  then show ?thesis using getRequestById_None_iff [of c "uniqueId x"] by (simp add: defer_held)
qed

subsection \<open>A resolved request and the calls in flight\<close>







subsection \<open>Calls settled in turn are the operations above\<close>

lemma find_map_nth:
  "find (\<lambda>r. uniqueId r = uid) (map (\<lambda>p. os ! p) hs) =
   map_option (\<lambda>p. os ! p) (find (\<lambda>p. uniqueId (os ! p) = uid) hs)"
  by (induction hs) auto

lemma getRequestById_view:
  "requests c = view s \<Longrightarrow> getRequestById c uid = map_option (\<lambda>p. objects s ! p) (lookupById s uid)"
  by (simp add: getRequestById_def lookupById_def view_def find_map_nth)

lemma lookupById_SomeD:
  "lookupById s uid = Some p \<Longrightarrow> p \<in> set (held s) \<and> uniqueId (objects s ! p) = uid"
  by (auto simp: lookupById_def find_Some_iff)

lemma map_nth_update_assign:
  "distinct hs \<Longrightarrow> \<forall>h \<in> set hs. h < length os \<Longrightarrow>
   find (\<lambda>p. uniqueId (os ! p) = uid) hs = Some p \<Longrightarrow>
   map (\<lambda>h. os[p := f (os ! p)] ! h) hs = assignRequest uid f (map (\<lambda>h. os ! h) hs)"
proof (induction hs)
  case Nil
  then show ?case by simp
next
  case (Cons h hs)
  show ?case
  proof (cases "uniqueId (os ! h) = uid")
    case True
    then have "p = h" using Cons.prems(3) by simp
    moreover have "map (\<lambda>k. os[h := f (os ! h)] ! k) hs = map (\<lambda>k. os ! k) hs"
    proof (rule map_cong)
      fix k assume "k \<in> set hs"
      then have "k \<noteq> h" using Cons.prems(1) by auto
      then show "os[h := f (os ! h)] ! k = os ! k" by simp
    qed simp
    ultimately show ?thesis using True Cons.prems(2) by simp
  next
    case False
    then have "find (\<lambda>p. uniqueId (os ! p) = uid) hs = Some p" using Cons.prems(3) by simp
    moreover from this have "uniqueId (os ! p) = uid" by (auto simp: find_Some_iff)
    then have "p \<noteq> h" using False by auto
    ultimately show ?thesis using False Cons by simp
  qed
qed

lemma defer_in_turn:
  assumes "wellformed s" and "requests c = view s"
  shows "view (occur s (CallDefer request)) = requests (snd (defer c request))
    \<and> wellformed (occur s (CallDefer request))"
proof (cases "lookupById s (uniqueId request)")
  case None
  then have free: "getRequestById c (uniqueId request) = None"
    using assms(2) by (simp add: getRequestById_view)
  have in_range: "\<forall>p \<in> set (held s). p < length (objects s)"
    using assms(1) by (simp add: wellformed_def)
  have "map (\<lambda>p. (objects s @ [request]) ! p)
          (filter (\<lambda>p. url (objects s ! p) \<noteq> url request) (held s)) =
        filter (\<lambda>r. url r \<noteq> url request) (map (\<lambda>p. objects s ! p) (held s))"
    using in_range by (induction "held s") (auto simp: filter_map comp_def nth_append intro!: map_cong)
  then have "view (occur s (CallDefer request)) = requests (snd (defer c request))"
    using None free assms(2) by (simp add: call_defer_def defer_free view_def)
  moreover have "wellformed (occur s (CallDefer request))"
    using None assms(1) by (auto simp: call_defer_def wellformed_def)
  ultimately show ?thesis by simp
next
  case (Some p)
  then have "getRequestById c (uniqueId request) = Some (objects s ! p)"
    using assms(2) by (simp add: getRequestById_view)
  then show ?thesis using Some assms by (simp add: call_defer_def defer_held)
qed

lemma reset_in_turn:
  "view (occur s CallReset) = requests (reset c) \<and> wellformed (occur s CallReset)"
  by (simp add: view_def reset_def wellformed_def)

lemma settle_in_turn_settled:
  "tasks s ! t = Settled res \<Longrightarrow> settle_in_turn env s t = s"
  by (simp add: settle_in_turn_def)

lemma resolve_in_turn_pending:
  assumes "lookupById s uid = Some p" and "\<not> truthy (sourceMap (objects s ! p))"
    and "js (objects s ! p) = Some src" and "src \<noteq> []"
  shows "resolve_in_turn env s uid headers =
     (case rewriteJsSourceMapAsync env (url (objects s ! p)) src
             (fst (loadInputSourceMap env (objects s ! p) src headers)) of
        Inl err \<Rightarrow> s\<lparr>tasks := tasks s @ [Settled (Inl (RewriteRejected err))]\<rparr>
      | Inr m \<Rightarrow>
          s\<lparr>objects := (objects s)[p := (objects s ! p)\<lparr>sourceMap := m, js := None\<rparr>],
            tasks := tasks s @ [Settled (Inr m)]\<rparr>)"
  using assms
  by (simp add: resolve_in_turn_def settle_in_turn_def call_resolve_def loadInputSourceMap_def
      Let_def split: option.splits sum.splits)

lemma resolve_in_turn_is_resolve:
  assumes w: "wellformed s" and v: "requests c = view s"
  shows "view (resolve_in_turn env s uid headers) = requests (fst (snd (resolve env c uid headers)))
    \<and> tasks (resolve_in_turn env s uid headers) = tasks s @ [Settled (fst (resolve env c uid headers))]
    \<and> wellformed (resolve_in_turn env s uid headers)"
proof (cases "lookupById s uid")
  case None
  then have "getRequestById c uid = None" using v by (simp add: getRequestById_view)
  then have "resolve env c uid headers = (Inr JUndefined, c, [])" by (rule resolve_not_found)
  moreover have "resolve_in_turn env s uid headers = s\<lparr>tasks := tasks s @ [Settled (Inr JUndefined)]\<rparr>"
    using None by (simp add: resolve_in_turn_def call_resolve_def settle_in_turn_settled)
  ultimately show ?thesis using w v by (simp add: view_def wellformed_def)
next
  case (Some p)
  let ?r = "objects s ! p"
  have found: "getRequestById c uid = Some ?r" using Some v by (simp add: getRequestById_view)
  show ?thesis
  proof (cases "truthy (sourceMap ?r)")
    case True
    then have "resolve env c uid headers = (Inr (sourceMap ?r), c, [])"
      using found by (simp add: resolve_has_map)
    moreover have "resolve_in_turn env s uid headers =
        s\<lparr>tasks := tasks s @ [Settled (Inr (sourceMap ?r))]\<rparr>"
      using Some True by (simp add: resolve_in_turn_def call_resolve_def settle_in_turn_settled)
    ultimately show ?thesis using w v by (simp add: view_def wellformed_def)
  next
    case False
    show ?thesis
    proof (cases "js ?r = None \<or> js ?r = Some []")
      case True
      then have "resolve env c uid headers = (Inl MissingSource, c, [])"
        using found False by (intro resolve_no_js) auto
      moreover have "resolve_in_turn env s uid headers =
          s\<lparr>tasks := tasks s @ [Settled (Inl MissingSource)]\<rparr>"
        using Some False True
        by (auto simp: resolve_in_turn_def call_resolve_def settle_in_turn_settled)
      ultimately show ?thesis using w v by (simp add: view_def wellformed_def)
    next
      case nojs: False
      then obtain src where src: "js ?r = Some src" "src \<noteq> []" by auto
      note atomic = resolve_pending [OF found False src, of env headers]
      note turn = resolve_in_turn_pending [OF Some False src, of env headers]
      show ?thesis
      proof (cases "rewriteJsSourceMapAsync env (url ?r) src (fst (loadInputSourceMap env ?r src headers))")
        case (Inl err)
        then show ?thesis using atomic turn w v by (simp add: view_def wellformed_def)
      next
        case (Inr m)
        have "find (\<lambda>p. uniqueId (objects s ! p) = uid) (held s) = Some p"
          using Some by (simp add: lookupById_def)
        then have "map (\<lambda>h. (objects s)[p := ?r\<lparr>sourceMap := m, js := None\<rparr>] ! h) (held s) =
            assignRequest uid (\<lambda>r. r\<lparr>sourceMap := m, js := None\<rparr>) (map (\<lambda>h. objects s ! h) (held s))"
          using w by (intro map_nth_update_assign) (simp_all add: wellformed_def)
        then show ?thesis using Inr atomic turn w v by (simp add: view_def wellformed_def)
      qed
    qed
  qed
qed

lemma perform_is_step:
  assumes "wellformed s" and "requests c = view s"
  shows "view (perform s op) = requests (step c op) \<and> wellformed (perform s op)"
proof (cases op)
  case (Defer request)
  then show ?thesis using defer_in_turn [OF assms] by simp
next
  case (Resolve env uid headers)
  then show ?thesis using resolve_in_turn_is_resolve [OF assms] by simp
next
  case Reset
  then show ?thesis using reset_in_turn [of s c] by simp
qed

lemma in_turn_is_run:
  "wellformed s \<Longrightarrow> requests c = view s \<Longrightarrow>
   view (foldl perform s ops) = requests (run c ops) \<and> wellformed (foldl perform s ops)"
proof (induction ops arbitrary: s c)
  case Nil
  then show ?case by (simp add: run_def)
next
  case (Cons op ops)
  have "view (perform s op) = requests (step c op)" "wellformed (perform s op)"
    using perform_is_step [OF Cons.prems] by simp_all
  then show ?case using Cons.IH [of "perform s op" "step c op"] by (simp add: run_def)
qed

lemma in_turn_from_start:
  "view (foldl perform start ops) = requests (run new_cache ops)"
  using in_turn_is_run [of start new_cache ops]
  by (simp add: wellformed_def start_def new_cache_def view_def)

subsection \<open>Evaluating the examples\<close>

lemmas example_defs =
  new_cache_def reset_def getRequestById_def removeRequestsByUrl_def defer_def resolve_def
  loadInputSourceMap_def run_def Let_def
  inline_js_def linked_js_def user_map_def composed_def sample_env_def failing_env_def
  request_a_def request_b_def request_c_def request_d_def request_empty_def request_bare_def


section \<open>Claims\<close>

text \<open>
  C6. An identifier that no request in the cache carries is not an error: \<^verbatim>\<open>resolve\<close>
  fulfils with \<^verbatim>\<open>undefined\<close>, changes nothing and calls no collaborator. That is so for an
  identifier never deferred (first part), for every identifier after \<^verbatim>\<open>reset\<close> (second
  part), and for the identifier of a request that a later successful \<^verbatim>\<open>defer\<close> for the
  same URL has replaced (third part).
\<close>

theorem resolve_absent_is_not_an_error:
  "(getRequestById c uid = None \<longrightarrow> resolve env c uid headers = (Inr JUndefined, c, []))
   \<and> resolve env (reset c) uid headers = (Inr JUndefined, reset c, [])
   \<and> (fst (defer c a) = Inr ida \<and> fst (defer (snd (defer c a)) b) = Inr idb \<and> url a = url b \<longrightarrow>
        resolve env (snd (defer (snd (defer c a)) b)) (uniqueId a) headers =
          (Inr JUndefined, snd (defer (snd (defer c a)) b), []))"
proof (intro conjI impI)
  assume "getRequestById c uid = None"
  then show "resolve env c uid headers = (Inr JUndefined, c, [])"
    by (rule resolve_not_found)
next
  have "getRequestById (reset c) uid = None"
    by (simp add: getRequestById_def reset_def)
  then show "resolve env (reset c) uid headers = (Inr JUndefined, reset c, [])"
    by (rule resolve_not_found)
next
  assume h: "fst (defer c a) = Inr ida \<and> fst (defer (snd (defer c a)) b) = Inr idb \<and> url a = url b"
  have "getRequestById (snd (defer (snd (defer c a)) b)) (uniqueId a) = None"
    using h by (rule superseded_not_found)
  then show "resolve env (snd (defer (snd (defer c a)) b)) (uniqueId a) headers =
          (Inr JUndefined, snd (defer (snd (defer c a)) b), [])"
    by (rule resolve_not_found)
qed


theorem resolve_absent_is_not_an_error_witness:
  "getRequestById new_cache ''a'' = None
   \<and> resolve sample_env new_cache ''a'' JNull = (Inr JUndefined, new_cache, [])
   \<and> resolve sample_env (reset (snd (defer new_cache request_a))) ''a'' JNull =
       (Inr JUndefined, reset (snd (defer new_cache request_a)), [])
   \<and> fst (defer new_cache request_c) = Inr ''c''
   \<and> fst (defer (snd (defer new_cache request_c)) request_d) = Inr ''d''
   \<and> url request_c = url request_d
   \<and> resolve sample_env (snd (defer (snd (defer new_cache request_c)) request_d)) ''c'' JNull =
       (Inr JUndefined, snd (defer (snd (defer new_cache request_c)) request_d), [])"
  using resolve_absent_is_not_an_error
    [where c = new_cache and uid = "''a''" and env = sample_env and headers = JNull
       and a = request_c and ida = "''c''" and b = request_d and idb = "''d''"]
    resolve_absent_is_not_an_error
    [where c = "snd (defer new_cache request_a)" and uid = "''a''" and env = sample_env
       and headers = JNull]
  by (simp add: example_defs)

text \<open>
  C1. A request carries a source map when \<^verbatim>\<open>request.sourceMap\<close> passes the test of line 67,
  that is, when the value is truthy, as every source map object and every non-empty map
  text is. For such a request, whether the map came with \<^verbatim>\<open>defer\<close> or from an earlier
  \<^verbatim>\<open>resolve\<close>, \<^verbatim>\<open>resolve\<close> fulfils with the stored map, leaves the cache as it is and calls
  no collaborator (first part). Hence a \<^verbatim>\<open>resolve\<close> that fulfilled with a map \<open>m\<close> is
  followed, whatever the collaborators would answer and whatever the headers, by a
  \<^verbatim>\<open>resolve\<close> of the same identifier that fulfils with the same \<open>m\<close> and calls nothing
  (second part).
\<close>

theorem resolve_returns_stored_map:
  "(getRequestById c uid = Some r \<and> truthy (sourceMap r) \<longrightarrow>
      resolve env c uid headers = (Inr (sourceMap r), c, []))
   \<and> (resolve env c uid headers = (Inr m, c', calls) \<and> truthy m \<longrightarrow>
      resolve env' c' uid headers' = (Inr m, c', []))"
proof (intro conjI impI)
  assume "getRequestById c uid = Some r \<and> truthy (sourceMap r)"
  then show "resolve env c uid headers = (Inr (sourceMap r), c, [])"
    by (simp add: resolve_has_map)
next
  assume h: "resolve env c uid headers = (Inr m, c', calls) \<and> truthy m"
  show "resolve env' c' uid headers' = (Inr m, c', [])"
  proof (cases rule: resolve_cases [of c uid env headers])
    case absent
    then show ?thesis using h by auto
  next
    case (cached r)
    then have "c' = c" "sourceMap r = m" using h by simp_all
    then show ?thesis using cached resolve_has_map by blast
  next
    case (missing r)
    then show ?thesis using h by simp
  next
    case (rejected r src err)
    then show ?thesis using h by simp
  next
    case (composed r src m')
    let ?f = "\<lambda>r. r\<lparr>sourceMap := m, js := None\<rparr>"
    from composed h have m: "m' = m" and c': "c' = c\<lparr>requests := assignRequest uid ?f (requests c)\<rparr>"
      by simp_all
    have "uniqueId (?f r) = uid"
      using composed(1) by (simp add: getRequestById_SomeD)
    then have "getRequestById c' uid = Some (?f r)"
      using composed(1) unfolding c' getRequestById_def
      by (simp add: find_assignRequest_same)
    moreover have "truthy (sourceMap (?f r))" using h by simp
    ultimately have "resolve env' c' uid headers' = (Inr (sourceMap (?f r)), c', [])"
      by (rule resolve_has_map)
    then show ?thesis by simp
  qed
qed

theorem resolve_returns_stored_map_witness:
  "getRequestById (snd (defer new_cache request_d)) ''d'' = Some request_d
   \<and> truthy (sourceMap request_d)
   \<and> resolve failing_env (snd (defer new_cache request_d)) ''d'' JNull =
       (Inr user_map, snd (defer new_cache request_d), [])
   \<and> truthy (composed ''http://x/app.js'' user_map)
   \<and> fst (resolve sample_env (snd (defer new_cache request_a)) ''a'' JNull) =
       Inr (composed ''http://x/app.js'' user_map)
   \<and> resolve failing_env (fst (snd (resolve sample_env (snd (defer new_cache request_a)) ''a'' JNull)))
         ''a'' (JString ''h'') =
       (Inr (composed ''http://x/app.js'' user_map),
        fst (snd (resolve sample_env (snd (defer new_cache request_a)) ''a'' JNull)), [])"
  using resolve_returns_stored_map
    [where c = "snd (defer new_cache request_d)" and uid = "''d''" and r = request_d
       and env = failing_env and headers = JNull]
    resolve_returns_stored_map
    [where c = "snd (defer new_cache request_a)" and uid = "''a''" and env = sample_env
       and headers = JNull and m = "composed ''http://x/app.js'' user_map"
       and c' = "fst (snd (resolve sample_env (snd (defer new_cache request_a)) ''a'' JNull))"
       and calls = "snd (snd (resolve sample_env (snd (defer new_cache request_a)) ''a'' JNull))"
       and env' = failing_env and headers' = "JString ''h''"]
  by (simp add: example_defs)

text \<open>
  C5. The request is pending and its text has a reference that \<^verbatim>\<open>tryDecodeInlineUrl\<close> does
  not decode, so the map is asked of the network, with the URL of the request, the
  caller's headers and a timeout of 5000. When that fetch fails, \<^verbatim>\<open>resolve\<close> goes on: it
  calls the rewriter with the falsy value the inline decoding gave as input map, and its
  outcome is the rewriter's: the composed map, stored in the request, or the rewriter's
  own rejection. The failure of the fetch is in neither.
\<close>

theorem fetch_failure_is_not_fatal:
  assumes "getRequestById c uid = Some r" and "\<not> truthy (sourceMap r)"
    and "js r = Some src" and "src \<noteq> []"
    and "getMappingUrl env src = Some ref" and "ref \<noteq> []"
    and "\<not> truthy (tryDecodeInlineUrl env ref)"
    and "requestLib env \<lparr>req_url = url r, req_headers = headers, req_timeout = 5000\<rparr> True = Inl failure"
  shows "resolve env c uid headers =
     (case rewriteJsSourceMapAsync env (url r) src (tryDecodeInlineUrl env ref) of
        Inl err \<Rightarrow>
          (Inl (RewriteRejected err), c,
           [GetMappingUrl src, TryDecodeInlineUrl ref,
            RequestLib \<lparr>req_url = url r, req_headers = headers, req_timeout = 5000\<rparr> True,
            RewriteJsSourceMapAsync (url r) src (tryDecodeInlineUrl env ref)])
      | Inr m \<Rightarrow>
          (Inr m,
           c\<lparr>requests := assignRequest uid (\<lambda>r. r\<lparr>sourceMap := m, js := None\<rparr>) (requests c)\<rparr>,
           [GetMappingUrl src, TryDecodeInlineUrl ref,
            RequestLib \<lparr>req_url = url r, req_headers = headers, req_timeout = 5000\<rparr> True,
            RewriteJsSourceMapAsync (url r) src (tryDecodeInlineUrl env ref)]))"
proof -
  have "loadInputSourceMap env r src headers =
      (tryDecodeInlineUrl env ref,
       [GetMappingUrl src, TryDecodeInlineUrl ref,
        RequestLib \<lparr>req_url = url r, req_headers = headers, req_timeout = 5000\<rparr> True])"
    using assms(5-8) by (simp add: loadInputSourceMap_def)
  then show ?thesis
    using resolve_pending [OF assms(1-4), of env headers] by (simp split: sum.splits)
qed

theorem fetch_failure_is_not_fatal_witness:
  "getRequestById (snd (defer new_cache request_b)) ''b'' = Some request_b
   \<and> \<not> truthy (sourceMap request_b)
   \<and> js request_b = Some linked_js \<and> linked_js \<noteq> []
   \<and> getMappingUrl sample_env linked_js = Some ''app.js.map''
   \<and> \<not> truthy (tryDecodeInlineUrl sample_env ''app.js.map'')
   \<and> requestLib sample_env
        \<lparr>req_url = ''http://x/lib.js'', req_headers = JString ''h'', req_timeout = 5000\<rparr> True =
       Inl ''ETIMEDOUT''
   \<and> resolve sample_env (snd (defer new_cache request_b)) ''b'' (JString ''h'') =
       (Inr (composed ''http://x/lib.js'' JUndefined),
        \<lparr>idCounter = 0,
         requests = [request_b\<lparr>sourceMap := composed ''http://x/lib.js'' JUndefined, js := None\<rparr>]\<rparr>,
        [GetMappingUrl linked_js, TryDecodeInlineUrl ''app.js.map'',
         RequestLib \<lparr>req_url = ''http://x/lib.js'', req_headers = JString ''h'',
                     req_timeout = 5000\<rparr> True,
         RewriteJsSourceMapAsync ''http://x/lib.js'' linked_js JUndefined])"
  using fetch_failure_is_not_fatal
    [where c = "snd (defer new_cache request_b)" and uid = "''b''" and r = request_b
       and src = linked_js and env = sample_env and ref = "''app.js.map''"
       and headers = "JString ''h''" and failure = "''ETIMEDOUT''"]
  by (simp add: example_defs)

text \<open>
  C8. The request is pending and its text has a reference that \<^verbatim>\<open>tryDecodeInlineUrl\<close>
  decodes. Then \<^verbatim>\<open>resolve\<close> makes three calls, none of them to \<^verbatim>\<open>requestLib\<close>, and fulfils
  with the map the rewriter composes from the URL of the request, its text and the
  decoded map (or rejects as the rewriter does).
\<close>

theorem inline_map_needs_no_network:
  assumes "getRequestById c uid = Some r" and "\<not> truthy (sourceMap r)"
    and "js r = Some src" and "src \<noteq> []"
    and "getMappingUrl env src = Some ref" and "ref \<noteq> []"
    and "truthy (tryDecodeInlineUrl env ref)"
  shows "resolve env c uid headers =
     (case rewriteJsSourceMapAsync env (url r) src (tryDecodeInlineUrl env ref) of
        Inl err \<Rightarrow>
          (Inl (RewriteRejected err), c,
           [GetMappingUrl src, TryDecodeInlineUrl ref,
            RewriteJsSourceMapAsync (url r) src (tryDecodeInlineUrl env ref)])
      | Inr m \<Rightarrow>
          (Inr m,
           c\<lparr>requests := assignRequest uid (\<lambda>r. r\<lparr>sourceMap := m, js := None\<rparr>) (requests c)\<rparr>,
           [GetMappingUrl src, TryDecodeInlineUrl ref,
            RewriteJsSourceMapAsync (url r) src (tryDecodeInlineUrl env ref)]))"
proof -
  have "loadInputSourceMap env r src headers =
      (tryDecodeInlineUrl env ref, [GetMappingUrl src, TryDecodeInlineUrl ref])"
    using assms(5-7) by (simp add: loadInputSourceMap_def)
  then show ?thesis
    using resolve_pending [OF assms(1-4), of env headers] by (simp split: sum.splits)
qed


theorem inline_map_needs_no_network_witness:
  "getRequestById (snd (defer new_cache request_a)) ''a'' = Some request_a
   \<and> \<not> truthy (sourceMap request_a)
   \<and> js request_a = Some inline_js \<and> inline_js \<noteq> []
   \<and> getMappingUrl sample_env inline_js = Some ''data:application/json;base64,e30=''
   \<and> truthy (tryDecodeInlineUrl sample_env ''data:application/json;base64,e30='')
   \<and> resolve sample_env (snd (defer new_cache request_a)) ''a'' JNull =
       (Inr (composed ''http://x/app.js'' user_map),
        \<lparr>idCounter = 0,
         requests = [request_a\<lparr>sourceMap := composed ''http://x/app.js'' user_map, js := None\<rparr>]\<rparr>,
        [GetMappingUrl inline_js, TryDecodeInlineUrl ''data:application/json;base64,e30='',
         RewriteJsSourceMapAsync ''http://x/app.js'' inline_js user_map])"
  using inline_map_needs_no_network
    [where c = "snd (defer new_cache request_a)" and uid = "''a''" and r = request_a
       and src = inline_js and env = sample_env and ref = "''data:application/json;base64,e30=''"
       and headers = JNull]
  by (simp add: example_defs)

text \<open>
  C10. When the rewriter rejects during the first resolution of a request, \<^verbatim>\<open>resolve\<close>
  rejects with that failure and the cache is as before: the request found under the
  identifier is still the one with its text and without a map. The next \<^verbatim>\<open>resolve\<close> of the
  identifier, under any collaborators \<open>env'\<close>, looks for the input map and calls the
  rewriter again, and its outcome is again the rewriter's.
\<close>

theorem rewrite_failure_leaves_request:
  assumes "getRequestById c uid = Some r" and "\<not> truthy (sourceMap r)"
    and "js r = Some src" and "src \<noteq> []"
    and "rewriteJsSourceMapAsync env (url r) src (fst (loadInputSourceMap env r src headers)) = Inl err"
  shows "resolve env c uid headers =
      (Inl (RewriteRejected err), c,
       snd (loadInputSourceMap env r src headers) @
       [RewriteJsSourceMapAsync (url r) src (fst (loadInputSourceMap env r src headers))])
    \<and> getRequestById (fst (snd (resolve env c uid headers))) uid = Some r
    \<and> resolve env' (fst (snd (resolve env c uid headers))) uid headers' =
      (case rewriteJsSourceMapAsync env' (url r) src (fst (loadInputSourceMap env' r src headers')) of
         Inl err' \<Rightarrow>
           (Inl (RewriteRejected err'), c,
            snd (loadInputSourceMap env' r src headers') @
            [RewriteJsSourceMapAsync (url r) src (fst (loadInputSourceMap env' r src headers'))])
       | Inr m \<Rightarrow>
           (Inr m,
            c\<lparr>requests := assignRequest uid (\<lambda>r. r\<lparr>sourceMap := m, js := None\<rparr>) (requests c)\<rparr>,
            snd (loadInputSourceMap env' r src headers') @
            [RewriteJsSourceMapAsync (url r) src (fst (loadInputSourceMap env' r src headers'))]))"
proof -
  have first: "resolve env c uid headers =
      (Inl (RewriteRejected err), c,
       snd (loadInputSourceMap env r src headers) @
       [RewriteJsSourceMapAsync (url r) src (fst (loadInputSourceMap env r src headers))])"
    using resolve_pending [OF assms(1-4), of env headers] assms(5) by simp
  then have same: "fst (snd (resolve env c uid headers)) = c"
    by simp
  show ?thesis
    unfolding same using first assms(1) resolve_pending [OF assms(1-4), of env' headers']
    by simp
qed

theorem rewrite_failure_leaves_request_witness:
  "getRequestById (snd (defer new_cache request_a)) ''a'' = Some request_a
   \<and> \<not> truthy (sourceMap request_a)
   \<and> js request_a = Some inline_js \<and> inline_js \<noteq> []
   \<and> rewriteJsSourceMapAsync failing_env ''http://x/app.js'' inline_js
        (fst (loadInputSourceMap failing_env request_a inline_js JNull)) = Inl ''worker died''
   \<and> resolve failing_env (snd (defer new_cache request_a)) ''a'' JNull =
       (Inl (RewriteRejected ''worker died''), snd (defer new_cache request_a),
        [GetMappingUrl inline_js, TryDecodeInlineUrl ''data:application/json;base64,e30='',
         RewriteJsSourceMapAsync ''http://x/app.js'' inline_js user_map])
   \<and> getRequestById (fst (snd (resolve failing_env (snd (defer new_cache request_a)) ''a'' JNull))) ''a'' =
       Some request_a
   \<and> resolve sample_env (fst (snd (resolve failing_env (snd (defer new_cache request_a)) ''a'' JNull)))
         ''a'' JNull =
       (Inr (composed ''http://x/app.js'' user_map),
        \<lparr>idCounter = 0,
         requests = [request_a\<lparr>sourceMap := composed ''http://x/app.js'' user_map, js := None\<rparr>]\<rparr>,
        [GetMappingUrl inline_js, TryDecodeInlineUrl ''data:application/json;base64,e30='',
         RewriteJsSourceMapAsync ''http://x/app.js'' inline_js user_map])"
  using rewrite_failure_leaves_request
    [where c = "snd (defer new_cache request_a)" and uid = "''a''" and r = request_a
       and src = inline_js and env = failing_env and headers = JNull and err = "''worker died''"
       and env' = sample_env and headers' = JNull]
  by (simp add: example_defs)

text \<open>
  C9. As stated, \<^verbatim>\<open>resolve\<close> would fail with \<open>MissingSource\<close> only when the text of the
  request is missing. The test of line 71 is \<^verbatim>\<open>!request.js\<close>, which also holds of the empty
  string: a request deferred with \<^verbatim>\<open>js: ''\<close> has its text, and \<^verbatim>\<open>resolve\<close> fails all the
  same.
\<close>

theorem missing_js_counterexample:
  "getRequestById (snd (defer new_cache request_empty)) ''e'' = Some request_empty
   \<and> js request_empty = Some []
   \<and> js request_empty \<noteq> None
   \<and> fst (resolve sample_env (snd (defer new_cache request_empty)) ''e'' JNull) = Inl MissingSource"
  by (simp add: example_defs)

text \<open>
  C9, amended. \<^verbatim>\<open>resolve\<close> fails with \<open>MissingSource\<close> exactly when the request is found,
  its \<^verbatim>\<open>sourceMap\<close> is falsy and its \<^verbatim>\<open>js\<close> is absent or the empty string. \<^verbatim>\<open>defer\<close> does
  not look at either field: any request whose identifier is free is accepted, and for one
  with neither map nor text the failure comes with the \<^verbatim>\<open>resolve\<close> of its identifier.
\<close>

theorem missing_js_iff:
  "(fst (resolve env c uid headers) = Inl MissingSource \<longleftrightarrow>
      (\<exists>r. getRequestById c uid = Some r \<and> \<not> truthy (sourceMap r) \<and> (js r = None \<or> js r = Some [])))
   \<and> (getRequestById c (uniqueId request) = None \<longrightarrow>
        defer c request =
          (Inr (uniqueId request),
           c\<lparr>requests := filter (\<lambda>r. url r \<noteq> url request) (requests c) @ [request]\<rparr>))
   \<and> (getRequestById c (uniqueId request) = None \<and> \<not> truthy (sourceMap request)
        \<and> (js request = None \<or> js request = Some []) \<longrightarrow>
        fst (resolve env (snd (defer c request)) (uniqueId request) headers) = Inl MissingSource)"
proof (intro conjI impI)
  show "fst (resolve env c uid headers) = Inl MissingSource \<longleftrightarrow>
      (\<exists>r. getRequestById c uid = Some r \<and> \<not> truthy (sourceMap r) \<and> (js r = None \<or> js r = Some []))"
    by (cases rule: resolve_cases [of c uid env headers]) auto
next
  assume "getRequestById c (uniqueId request) = None"
  then show "defer c request =
          (Inr (uniqueId request),
           c\<lparr>requests := filter (\<lambda>r. url r \<noteq> url request) (requests c) @ [request]\<rparr>)"
    by (rule defer_free)
next
  assume h: "getRequestById c (uniqueId request) = None \<and> \<not> truthy (sourceMap request)
        \<and> (js request = None \<or> js request = Some [])"
  then have "getRequestById (snd (defer c request)) (uniqueId request) = Some request"
    by (simp add: defer_found)
  then have "resolve env (snd (defer c request)) (uniqueId request) headers =
      (Inl MissingSource, snd (defer c request), [])"
    using h by (intro resolve_no_js) auto
  then show "fst (resolve env (snd (defer c request)) (uniqueId request) headers) = Inl MissingSource"
    by simp
qed

theorem missing_js_iff_witness:
  "fst (resolve sample_env (snd (defer new_cache request_empty)) ''e'' JNull) = Inl MissingSource
   \<and> getRequestById new_cache (uniqueId request_bare) = None
   \<and> \<not> truthy (sourceMap request_bare) \<and> js request_bare = None
   \<and> defer new_cache request_bare = (Inr ''n'', \<lparr>idCounter = 0, requests = [request_bare]\<rparr>)
   \<and> fst (resolve sample_env (snd (defer new_cache request_bare)) ''n'' JNull) = Inl MissingSource"
  using missing_js_iff
    [where c = new_cache and request = request_bare and env = sample_env and headers = JNull
       and uid = "''n''"]
    missing_js_iff
    [where c = "snd (defer new_cache request_empty)" and uid = "''e''" and env = sample_env
       and headers = JNull and request = request_bare]
  by (simp add: example_defs)

text \<open>
  C2. Two calls of \<^verbatim>\<open>defer\<close>, for \<open>a\<close> and then for \<open>b\<close>, both successful and with the same
  URL. The identifiers differ (or the second call would have thrown), the cache no longer
  holds a request under the identifier of \<open>a\<close>, and \<^verbatim>\<open>resolve\<close> of that identifier fulfils
  with \<^verbatim>\<open>undefined\<close>. Under the identifier of \<open>b\<close> the cache holds \<open>b\<close>, and the outcome of
  \<^verbatim>\<open>resolve\<close> there is never the outcome of an absent request: it is the stored map, an
  error, or what the rewriter composed after at least one collaborator call. The value
  itself is not \<^verbatim>\<open>undefined\<close> as long as the rewriter, which is to return a map, does not
  fulfil with \<^verbatim>\<open>undefined\<close>.
\<close>

theorem supersession:
  assumes "fst (defer c a) = Inr ida" and "fst (defer (snd (defer c a)) b) = Inr idb"
    and "url a = url b"
  shows "uniqueId a \<noteq> uniqueId b
    \<and> getRequestById (snd (defer (snd (defer c a)) b)) (uniqueId a) = None
    \<and> resolve env (snd (defer (snd (defer c a)) b)) (uniqueId a) headers =
        (Inr JUndefined, snd (defer (snd (defer c a)) b), [])
    \<and> getRequestById (snd (defer (snd (defer c a)) b)) (uniqueId b) = Some b
    \<and> resolve env (snd (defer (snd (defer c a)) b)) (uniqueId b) headers \<noteq>
        (Inr JUndefined, snd (defer (snd (defer c a)) b), [])
    \<and> ((\<forall>src inp. rewriteJsSourceMapAsync env (url b) src inp \<noteq> Inr JUndefined) \<longrightarrow>
         fst (resolve env (snd (defer (snd (defer c a)) b)) (uniqueId b) headers) \<noteq> Inr JUndefined)"
proof -
  let ?c1 = "snd (defer c a)"
  let ?c2 = "snd (defer ?c1 b)"
  have h: "fst (defer c a) = Inr ida \<and> fst (defer ?c1 b) = Inr idb \<and> url a = url b"
    using assms by simp
  have a_free: "getRequestById c (uniqueId a) = None" and b_free: "getRequestById ?c1 (uniqueId b) = None"
    using assms by (simp_all add: defer_success_iff)
  have "getRequestById ?c1 (uniqueId a) = Some a"
    using a_free by (rule defer_found)
  then have ne: "uniqueId a \<noteq> uniqueId b"
    using b_free by auto
  have gone: "getRequestById ?c2 (uniqueId a) = None"
    using h by (rule superseded_not_found)
  have there: "getRequestById ?c2 (uniqueId b) = Some b"
    using b_free by (rule defer_found)
  have absent: "resolve env ?c2 (uniqueId a) headers = (Inr JUndefined, ?c2, [])"
    using gone by (rule resolve_not_found)
  have outcome: "resolve env ?c2 (uniqueId b) headers \<noteq> (Inr JUndefined, ?c2, [])"
    using there by (cases rule: resolve_cases [of ?c2 "uniqueId b" env headers]) auto
  have "fst (resolve env ?c2 (uniqueId b) headers) \<noteq> Inr JUndefined"
    if "\<forall>src inp. rewriteJsSourceMapAsync env (url b) src inp \<noteq> Inr JUndefined"
    using there that by (cases rule: resolve_cases [of ?c2 "uniqueId b" env headers]) auto
  then show ?thesis
    using ne gone there absent outcome by blast
qed

theorem supersession_witness:
  "fst (defer new_cache request_c) = Inr ''c''
   \<and> fst (defer (snd (defer new_cache request_c)) request_a) = Inr ''a''
   \<and> url request_c = url request_a
   \<and> (\<forall>src inp. rewriteJsSourceMapAsync sample_env (url request_a) src inp \<noteq> Inr JUndefined)
   \<and> resolve sample_env (snd (defer (snd (defer new_cache request_c)) request_a)) ''c'' JNull =
       (Inr JUndefined, snd (defer (snd (defer new_cache request_c)) request_a), [])
   \<and> fst (resolve sample_env (snd (defer (snd (defer new_cache request_c)) request_a)) ''a'' JNull) =
       Inr (composed ''http://x/app.js'' user_map)
   \<and> fst (resolve sample_env (snd (defer (snd (defer new_cache request_c)) request_a)) ''a'' JNull) \<noteq>
       Inr JUndefined"
  using supersession
    [where c = new_cache and a = request_c and ida = "''c''" and b = request_a and idb = "''a''"
       and env = sample_env and headers = JNull]
  by (simp add: example_defs)

text \<open>
  C3. As stated, an identifier once passed to a successful \<^verbatim>\<open>defer\<close> would be refused for
  ever, also after its request was superseded. \<^verbatim>\<open>defer\<close> looks the identifier up among the
  requests held now (line 39): after \<^verbatim>\<open>c\<close> has been replaced by \<^verbatim>\<open>d\<close>, for the same URL,
  a new \<^verbatim>\<open>defer\<close> with identifier \<^verbatim>\<open>c\<close> succeeds.
\<close>

theorem duplicate_identifier_counterexample:
  "fst (defer new_cache request_c) = Inr ''c''
   \<and> run (snd (defer new_cache request_c)) [Defer request_d] = \<lparr>idCounter = 0, requests = [request_d]\<rparr>
   \<and> defer (run (snd (defer new_cache request_c)) [Defer request_d]) request_c =
       (Inr ''c'', \<lparr>idCounter = 0, requests = [request_c]\<rparr>)"
  by (simp add: example_defs)

text \<open>
  C3, amended. After a successful \<^verbatim>\<open>defer\<close> of a request, and any operations that do not
  take the request out (no \<^verbatim>\<open>reset\<close>, no \<^verbatim>\<open>defer\<close> for its URL; any number of \<^verbatim>\<open>resolve\<close>
  calls, so the request may be resolved or pending), a \<^verbatim>\<open>defer\<close> with the same identifier
  fails with \<open>DuplicateIdentifier\<close> and leaves the cache as it is. In general \<^verbatim>\<open>defer\<close> fails
  in this way exactly when a request held now carries the identifier, and succeeds
  otherwise.
\<close>

theorem duplicate_identifier_while_held:
  "(fst (defer c request) = Inr uid
      \<and> (\<forall>op \<in> set ops. op \<noteq> Reset \<and> (\<forall>x. op = Defer x \<longrightarrow> url x \<noteq> url request))
      \<and> uniqueId again = uniqueId request \<longrightarrow>
      defer (run (snd (defer c request)) ops) again =
        (Inl (DuplicateIdentifier (uniqueId request)), run (snd (defer c request)) ops))
   \<and> (defer c again = (Inl (DuplicateIdentifier (uniqueId again)), c) \<longleftrightarrow>
        uniqueId again \<in> uniqueId ` set (requests c))
   \<and> (uniqueId again \<notin> uniqueId ` set (requests c) \<longrightarrow> fst (defer c again) = Inr (uniqueId again))"
proof (intro conjI impI)
  assume h: "fst (defer c request) = Inr uid
      \<and> (\<forall>op \<in> set ops. op \<noteq> Reset \<and> (\<forall>x. op = Defer x \<longrightarrow> url x \<noteq> url request))
      \<and> uniqueId again = uniqueId request"
  let ?c1 = "snd (defer c request)"
  from h have "getRequestById c (uniqueId request) = None"
    by (simp add: defer_success_iff)
  then have "(uniqueId request, url request) \<in> set (map (\<lambda>r. (uniqueId r, url r)) (requests ?c1))"
    by (simp add: defer_free)
  then have "(uniqueId request, url request) \<in> set (map (\<lambda>r. (uniqueId r, url r)) (requests (run ?c1 ops)))"
    using h by (intro run_keeps_held) auto
  then have "uniqueId again \<in> uniqueId ` set (requests (run ?c1 ops))"
    using h by force
  then have "defer (run ?c1 ops) again = (Inl (DuplicateIdentifier (uniqueId again)), run ?c1 ops)"
    by (simp add: defer_fails_iff)
  then show "defer (run ?c1 ops) again = (Inl (DuplicateIdentifier (uniqueId request)), run ?c1 ops)"
    using h by simp
next
  show "defer c again = (Inl (DuplicateIdentifier (uniqueId again)), c) \<longleftrightarrow>
        uniqueId again \<in> uniqueId ` set (requests c)"
    by (rule defer_fails_iff)
next
  assume "uniqueId again \<notin> uniqueId ` set (requests c)"
  then show "fst (defer c again) = Inr (uniqueId again)"
    by (simp add: defer_success_iff getRequestById_None_iff)
qed

theorem duplicate_identifier_while_held_witness:
  "fst (defer new_cache request_a) = Inr ''a''
   \<and> url request_b \<noteq> url request_a
   \<and> defer (run (snd (defer new_cache request_a))
              [Defer request_b, Resolve sample_env ''a'' JNull, Defer request_b]) request_a =
       (Inl (DuplicateIdentifier ''a''),
        run (snd (defer new_cache request_a))
          [Defer request_b, Resolve sample_env ''a'' JNull, Defer request_b])
   \<and> uniqueId request_c \<notin> uniqueId ` set (requests (snd (defer new_cache request_d)))
   \<and> fst (defer (snd (defer new_cache request_d)) request_c) = Inr ''c''"
  using duplicate_identifier_while_held
    [where c = new_cache and request = request_a and uid = "''a''" and again = request_a
       and ops = "[Defer request_b, Resolve sample_env ''a'' JNull, Defer request_b]"]
    duplicate_identifier_while_held
    [where c = "snd (defer new_cache request_d)" and again = request_c and request = request_a
       and uid = "''a''" and ops = "[Reset]"]
  by (simp add: example_defs)

text \<open>
  C4. In every cache reached from the new one by \<^verbatim>\<open>defer\<close> (successful or throwing),
  \<^verbatim>\<open>resolve\<close> (under any collaborators) and \<^verbatim>\<open>reset\<close>, no two requests share a \<^verbatim>\<open>uniqueId\<close>
  and no two share a \<^verbatim>\<open>url\<close>.
\<close>

theorem store_invariant:
  "distinct (map uniqueId (requests (run new_cache ops)))
   \<and> distinct (map url (requests (run new_cache ops)))"
  by (rule run_keeps_distinct) (simp_all add: new_cache_def)

theorem store_invariant_witness:
  "requests (run new_cache
      [Defer request_a, Defer request_b, Defer request_a, Resolve sample_env ''a'' JNull,
       Defer request_c]) =
     [request_b, request_c]
   \<and> distinct (map uniqueId [request_b, request_c])
   \<and> distinct (map url [request_b, request_c])"
  using store_invariant
    [of "[Defer request_a, Defer request_b, Defer request_a, Resolve sample_env ''a'' JNull,
          Defer request_c]"]
  by (simp add: example_defs)




end
